theory Spec2Isabelle
  imports Main "HOL-Library.Sublist"
begin

section \<open>Python string operations used by the sources\<close>

text \<open>
  A Python \<open>str\<close> is modelled as a \<open>string\<close> whose characters are the code points
  U+0000 .. U+00FF. The character classes below are Python's for that range.
\<close>

definition isspace :: "char \<Rightarrow> bool" where
  "isspace c = ((of_char c :: nat) \<in> {9, 10, 11, 12, 13, 28, 29, 30, 31, 32, 133, 160})"

definition newline :: char where
  "newline = CHR 0x0A"

definition strip :: "string \<Rightarrow> string" where
  "strip s = rev (dropWhile isspace (rev (dropWhile isspace s)))"

definition startswith :: "string \<Rightarrow> string \<Rightarrow> bool" where
  "startswith s p = (take (length p) s = p)"

text \<open>\<open>contains s sub\<close> is Python's \<open>sub in s\<close>.\<close>

fun contains :: "string \<Rightarrow> string \<Rightarrow> bool" where
  "contains [] sub = (sub = [])"
| "contains (c # cs) sub = (startswith (c # cs) sub \<or> contains cs sub)"

text \<open>\<open>split_ws\<close> is \<open>str.split()\<close>: the maximal runs of non-whitespace characters.\<close>

fun split_ws_from :: "string \<Rightarrow> string \<Rightarrow> string list" where
  "split_ws_from cur [] = (if cur = [] then [] else [cur])"
| "split_ws_from cur (c # cs) =
     (if isspace c then (if cur = [] then split_ws_from [] cs else cur # split_ws_from [] cs)
      else split_ws_from (cur @ [c]) cs)"

definition split_ws :: "string \<Rightarrow> string list" where
  "split_ws s = split_ws_from [] s"

text \<open>\<open>split_nl\<close> is \<open>str.split("\n")\<close>; \<open>join_nl\<close> is \<open>"\n".join\<close>.\<close>

fun split_nl_from :: "string \<Rightarrow> string \<Rightarrow> string list" where
  "split_nl_from cur [] = [cur]"
| "split_nl_from cur (c # cs) =
     (if c = newline then cur # split_nl_from [] cs else split_nl_from (cur @ [c]) cs)"

definition split_nl :: "string \<Rightarrow> string list" where
  "split_nl s = split_nl_from [] s"

fun join_nl :: "string list \<Rightarrow> string" where
  "join_nl [] = []"
| "join_nl [x] = x"
| "join_nl (x # y # ys) = x @ newline # join_nl (y # ys)"

definition lower_char :: "char \<Rightarrow> char" where
  "lower_char c =
     (let n = (of_char c :: nat)
      in if (65 \<le> n \<and> n \<le> 90) \<or> (192 \<le> n \<and> n \<le> 222 \<and> n \<noteq> 215) then char_of (n + 32) else c)"

definition lower :: "string \<Rightarrow> string" where
  "lower s = map lower_char s"

section \<open>Instruction parser (bauto/core/parser.py)\<close>

definition FUNCTION_START :: string where
  "FUNCTION_START = ''DEFINE_FUNCTION''"

definition FUNCTION_END :: string where
  "FUNCTION_END = ''END_FUNCTION''"

definition CALL_FUNCTION :: string where
  "CALL_FUNCTION = ''CALL''"

definition COMMENT :: string where
  "COMMENT = ''#''"

text \<open>
  \<open>InstructionParser\<close>: the two attributes set by \<open>__init__\<close>
  (\<open>function_defs\<close> is the attribute \<open>functions\<close>). Both persist between calls of
  \<open>parse\<close>; only \<open>clear\<close> empties them.
\<close>

record parser =
  function_defs :: "string \<rightharpoonup> string list"
  action_queue :: "string list"

definition parser_init :: parser where
  "parser_init = \<lparr>function_defs = Map.empty, action_queue = []\<rparr>"

text \<open>The argument of \<open>parse\<close>: \<open>str | List[str]\<close>.\<close>

datatype instructions = Text string | Lines "string list"

text \<open>
  \<open>line.split()[-1]\<close>. The source applies it only to a stripped, non-empty line, where
  \<open>split()\<close> is non-empty (lemma \<open>split_ws_nonempty\<close>), so the index is in range.
\<close>

definition func_name_of :: "string \<Rightarrow> string" where
  "func_name_of line = last (split_ws line)"

text \<open>
  The inner \<open>while\<close> of \<open>_extract_functions\<close>: from index \<open>i\<close>, collect body lines
  until a line starting with the end marker or the end of input. Returns the index where
  it stopped and the body.
\<close>

function collect_body :: "string list \<Rightarrow> nat \<Rightarrow> string list \<Rightarrow> nat \<times> string list" where
  "collect_body lines i func_body =
     (if i < length lines then
        (let line = strip (lines ! i)
         in if startswith line FUNCTION_END then (i, func_body)
            else collect_body lines (i + 1)
                   (if line \<noteq> [] \<and> \<not> startswith line COMMENT then func_body @ [line]
                    else func_body))
      else (i, func_body))"
  by pat_completeness auto
termination
  by (relation "measure (\<lambda>(lines, i, func_body). length lines - i)") auto

text \<open>The outer \<open>while\<close> of \<open>_extract_functions\<close>, from index \<open>i\<close>.\<close>

function extract_functions_from ::
  "string list \<Rightarrow> nat \<Rightarrow> (string \<rightharpoonup> string list) \<Rightarrow> (string \<rightharpoonup> string list)" where
  "extract_functions_from lines i fs =
     (if i < length lines then
        (let line = strip (lines ! i)
         in if line = [] \<or> startswith line COMMENT then extract_functions_from lines (i + 1) fs
            else if startswith line FUNCTION_START then
              (let func_name = func_name_of line;
                   r = collect_body lines (i + 1) []
               in extract_functions_from lines (fst r + 1) (fs(func_name \<mapsto> snd r)))
            else extract_functions_from lines (i + 1) fs)
      else fs)"
  by pat_completeness auto
termination
proof -
  have idx: "i \<le> fst (collect_body lines i func_body)" for lines i func_body
  proof (induction lines i func_body rule: collect_body.induct)
    case (1 lines i func_body)
    show ?case
    proof (cases "i < length lines \<and> \<not> startswith (strip (lines ! i)) FUNCTION_END")
      case False
      then show ?thesis by auto
    next
      case True
      then have inb: "i < length lines"
        and noend: "\<not> startswith (strip (lines ! i)) FUNCTION_END" by auto
      from "1.IH" [OF inb refl noend]
      have "i + 1 \<le> fst (collect_body lines (i + 1)
              (if strip (lines ! i) \<noteq> [] \<and> \<not> startswith (strip (lines ! i)) COMMENT
               then func_body @ [strip (lines ! i)] else func_body))" .
      with inb noend show ?thesis
        by (subst collect_body.simps) (simp add: Let_def)
    qed
  qed
  show ?thesis
  proof (relation "measure (\<lambda>(lines, i, fs). length lines - i)", goal_cases)
    case 1
    show ?case by simp
  next
    case (2 lines i fs x)
    then show ?case by auto
  next
    case (3 lines i fs x xa xb)
    from idx [of "i + 1" lines "[]"] 3 show ?case by auto
  next
    case (4 lines i fs x)
    then show ?case by auto
  qed
qed

definition extract_functions :: "parser \<Rightarrow> string list \<Rightarrow> parser" where
  "extract_functions p lines = p\<lparr>function_defs := extract_functions_from lines 0 (function_defs p)\<rparr>"

text \<open>One iteration of the \<open>for\<close> loop of \<open>_build_action_queue\<close>.\<close>

definition build_step :: "(string \<rightharpoonup> string list) \<Rightarrow> string list \<Rightarrow> string \<Rightarrow> string list" where
  "build_step fs queue raw =
     (let line = strip raw
      in if line = [] \<or> startswith line COMMENT then queue
         else if startswith line FUNCTION_START \<or> startswith line FUNCTION_END then queue
         else if startswith line CALL_FUNCTION then
           (case fs (func_name_of line) of
              Some func_body \<Rightarrow> queue @ func_body
            | None \<Rightarrow> queue)
         else queue @ [line])"

definition build_action_queue :: "parser \<Rightarrow> string list \<Rightarrow> parser" where
  "build_action_queue p lines =
     p\<lparr>action_queue := foldl (build_step (function_defs p)) (action_queue p) lines\<rparr>"

text \<open>The first statement of \<open>parse\<close>: a text block is stripped and split on line breaks.\<close>

definition lines_of :: "instructions \<Rightarrow> string list" where
  "lines_of instrs = (case instrs of Text s \<Rightarrow> split_nl (strip s) | Lines ls \<Rightarrow> ls)"

definition parse :: "parser \<Rightarrow> instructions \<Rightarrow> parser" where
  "parse p instrs =
     (let lines = lines_of instrs
      in build_action_queue (extract_functions p lines) lines)"

definition clear :: "parser \<Rightarrow> parser" where
  "clear p = p\<lparr>function_defs := Map.empty, action_queue := []\<rparr>"

text \<open>
  \<open>group_related_actions\<close>: the loop state is the pair \<open>(grouped, current_block)\<close>.
\<close>

definition continuation_keywords :: "string list" where
  "continuation_keywords = [''then'', ''and'', ''after that'', ''next'']"

definition is_continuation :: "string \<Rightarrow> bool" where
  "is_continuation action =
     list_ex (\<lambda>keyword. contains (lower action) keyword) continuation_keywords"

definition group_step :: "string list \<times> string list \<Rightarrow> string \<Rightarrow> string list \<times> string list" where
  "group_step st action =
     (let grouped = fst st; current_block = snd st
      in if is_continuation action \<and> current_block \<noteq> [] then (grouped, current_block @ [action])
         else ((if current_block \<noteq> [] then grouped @ [join_nl current_block] else grouped),
               [action]))"

definition group_related_actions :: "string list \<Rightarrow> string list" where
  "group_related_actions actions =
     (let st = foldl group_step ([], []) actions
      in if snd st \<noteq> [] then fst st @ [join_nl (snd st)] else fst st)"

section \<open>Collaborators outside the sources\<close>

text \<open>
  A raised exception: the name of its class (\<open>type(e).__name__\<close>), its text (\<open>str(e)\<close>),
  whether it is an instance of \<open>Exception\<close> (\<open>SystemExit\<close>, \<open>KeyboardInterrupt\<close> and
  \<open>GeneratorExit\<close> are not), and the text \<open>traceback.format_exc()\<close> gives for it.
\<close>

datatype fault = Fault (kind: string) (message: string) (is_exception: bool) (trace: string)

text \<open>
  The calls the sources make out of the repository, in the order they happen. The log is
  instrumentation, as the call list of a mock is: no source function reads it.
\<close>

datatype event =
    ProviderCall string
  | ExecCall string
  | ScreenshotCall string
  | CreateBrowser
  | DriverQuit
  | Sleep

record 'w world =
  ext :: 'w
  log :: "event list"

text \<open>The objects a snippet's scope binds; a caller-supplied object is known by a label.\<close>

datatype obj = EnvHandle | DriverHandle | KeysNamespace | Builtins | Extra string

text \<open>
  What lies outside the sources, as functions on an external state \<open>'w\<close>:
  the provider behind \<open>AIModelInterface.generate_with_retry\<close>, the Python interpreter
  behind \<open>exec\<close>, the browser's \<open>screenshot\<close> (with \<open>os.makedirs\<close>),
  \<open>create_browser\<close> and \<open>driver.quit\<close>. Each returns the exception it raises, if any.
\<close>

record 'w collaborators =
  ai_generate_with_retry :: "string \<Rightarrow> 'w \<Rightarrow> (fault + string) \<times> 'w"
  py_exec :: "string \<Rightarrow> (string \<rightharpoonup> obj) \<Rightarrow> 'w \<Rightarrow> fault option \<times> 'w"
  env_screenshot :: "string \<Rightarrow> 'w \<Rightarrow> fault option \<times> 'w"
  create_browser :: "'w \<Rightarrow> fault option \<times> 'w"
  driver_quit :: "'w \<Rightarrow> fault option \<times> 'w"

definition call_provider ::
  "'w collaborators \<Rightarrow> string \<Rightarrow> 'w world \<Rightarrow> (fault + string) \<times> 'w world" where
  "call_provider C prompt W =
     (let r = ai_generate_with_retry C prompt (ext W)
      in (fst r, \<lparr>ext = snd r, log = log W @ [ProviderCall prompt]\<rparr>))"

definition call_exec ::
  "'w collaborators \<Rightarrow> string \<Rightarrow> (string \<rightharpoonup> obj) \<Rightarrow> 'w world \<Rightarrow> fault option \<times> 'w world" where
  "call_exec C code scope W =
     (let r = py_exec C code scope (ext W)
      in (fst r, \<lparr>ext = snd r, log = log W @ [ExecCall code]\<rparr>))"

definition call_screenshot ::
  "'w collaborators \<Rightarrow> string \<Rightarrow> 'w world \<Rightarrow> fault option \<times> 'w world" where
  "call_screenshot C filename W =
     (let r = env_screenshot C filename (ext W)
      in (fst r, \<lparr>ext = snd r, log = log W @ [ScreenshotCall filename]\<rparr>))"

definition call_create_browser :: "'w collaborators \<Rightarrow> 'w world \<Rightarrow> fault option \<times> 'w world" where
  "call_create_browser C W =
     (let r = create_browser C (ext W)
      in (fst r, \<lparr>ext = snd r, log = log W @ [CreateBrowser]\<rparr>))"

definition call_driver_quit :: "'w collaborators \<Rightarrow> 'w world \<Rightarrow> fault option \<times> 'w world" where
  "call_driver_quit C W =
     (let r = driver_quit C (ext W)
      in (fst r, \<lparr>ext = snd r, log = log W @ [DriverQuit]\<rparr>))"

definition sleep :: "'w world \<Rightarrow> 'w world" where
  "sleep W = W\<lparr>log := log W @ [Sleep]\<rparr>"

fun is_provider_call :: "event \<Rightarrow> bool" where
  "is_provider_call (ProviderCall prompt) = True"
| "is_provider_call e = False"


definition provider_calls :: "'w world \<Rightarrow> nat" where
  "provider_calls W = length (filter is_provider_call (log W))"


section \<open>Code generator (bauto/core/code_generator.py)\<close>

definition SYSTEM_PROMPT :: string where
  \<open>SYSTEM_PROMPT = join_nl
    [''You are an expert Selenium automation code generator.'',
     '''',
     ''IMPORTANT: Generate code that EXECUTES IMMEDIATELY. Do not wrap code in functions or classes unless absolutely necessary.'',
     ''If you must use functions, ALWAYS call them at the end.'',
     '''',
     ''You have access to an automation environment (env) with these methods:'',
     '''',
     ''Core Navigation:'',
     ''- env.navigate(url) - Navigate to a URL'',
     ''- env.wait(seconds) - Wait for specified seconds'',
     ''- env.refresh() - Refresh the current page'',
     '''',
     ''Element Finding:'',
     ''- env.find_element(by='xpath', value=None) - Find single element'',
     ''- env.find_elements(by='xpath', value=None) - Find multiple elements'',
     ''- env.find_visible_element(by='xpath', value=None) - Find first visible element'',
     ''- env.find_element_by_text(text, tag='*') - Find element containing text'',
     '''',
     ''Element Interaction:'',
     ''- env.click(element) - Click an element'',
     ''- env.type_text(element, text) - Type text into element'',
     ''- env.clear_and_type(element, text) - Clear then type'',
     ''- env.select_option(element, value) - Select dropdown option'',
     ''- env.check_checkbox(element, checked=True) - Check/uncheck'',
     '''',
     ''Page Interaction:'',
     ''- env.scroll(direction) - Scroll page ('up', 'down', 'top', 'bottom')'',
     ''- env.screenshot(filename) - Take screenshot'',
     ''- env.get_page_text() - Get all visible text'',
     ''- env.execute_script(script) - Run JavaScript'',
     '''',
     ''Element Properties:'',
     ''- env.get_text(element) - Get element text'',
     ''- env.get_attribute(element, attr) - Get element attribute'',
     ''- env.is_visible(element) - Check if element is visible'',
     ''- env.is_enabled(element) - Check if element is enabled'',
     '''',
     ''Guidelines:'',
     ''1. Write DIRECT, EXECUTABLE code - no function definitions unless necessary'',
     ''2. Use xpath with contains() for flexible matching: //button[contains(normalize-space(), 'Click')]'',
     ''3. Always use env methods, never call element methods directly'',
     ''4. Import Keys from selenium.webdriver.common.keys if needed'',
     ''5. Write clean, minimal code without comments'',
     ''6. Handle common cases like waiting for elements'',
     ''7. If you define a function/class, ALWAYS call it immediately after'',
     '''',
     ''CRITICAL: Code must execute immediately. Do NOT leave functions uncalled.'',
     '''',
     ''Example (GOOD):'',
     ''env.navigate("https://example.com")'',
     ''element = env.find_element(by='xpath', value='//input')'',
     ''env.type_text(element, "text")'',
     '''',
     ''Example (BAD - function not called):'',
     ''def main():'',
     ''    env.navigate("https://example.com")'',
     ''# Missing: main() call'',
     '''',
     ''Generate ONLY executable Python code, no explanations.'',
     '''']\<close>

text \<open>The code fence marker: three backquotes.\<close>

definition FENCE :: string where
  "FENCE = [CHR 0x60, CHR 0x60, CHR 0x60]"

record code_generator =
  cache_enabled :: bool
  code_cache :: "string \<rightharpoonup> string"

definition code_generator_init :: "bool \<Rightarrow> code_generator" where
  "code_generator_init enabled = \<lparr>cache_enabled = enabled, code_cache = Map.empty\<rparr>"

text \<open>An \<open>Optional[str]\<close> inside an f-string: \<open>None\<close> prints as \<open>None\<close>.\<close>

definition fmt_opt :: "string option \<Rightarrow> string" where
  "fmt_opt x = (case x of None \<Rightarrow> ''None'' | Some s \<Rightarrow> s)"

definition cache_key :: "string \<Rightarrow> string option \<Rightarrow> string option \<Rightarrow> string" where
  "cache_key instruction context retry_on_error =
     instruction @ '':'' @ fmt_opt context @ '':'' @ fmt_opt retry_on_error"

text \<open>\<open>if context:\<close> and \<open>if error:\<close> are false for \<open>None\<close> and for the empty string.\<close>

definition truthy :: "string option \<Rightarrow> bool" where
  "truthy x = (case x of None \<Rightarrow> False | Some s \<Rightarrow> s \<noteq> [])"

definition build_prompt :: "string \<Rightarrow> string option \<Rightarrow> string option \<Rightarrow> string" where
  \<open>build_prompt instruction context error =
     (let prompt = SYSTEM_PROMPT @ [newline, newline];
          prompt = (if truthy context
                    then prompt @ ''Previous context:'' @ [newline] @ the context @ [newline, newline]
                    else prompt);
          prompt = prompt @ ''INSTRUCTION:'' @ [newline] @ instruction @ [newline, newline];
          prompt = (if truthy error
                    then prompt @ ''Previous attempt failed with error:'' @ [newline] @ the error
                           @ [newline, newline] @ ''Fix the error and try again.'' @ [newline, newline]
                    else prompt)
      in prompt @ ''OUTPUT (Python code only):'' @ [newline] @ FENCE @ ''python'' @ [newline])\<close>

text \<open>
  \<open>str.replace(old, new)\<close>: the occurrences of \<open>old\<close> from the left, not overlapping.
  \<open>skip\<close> counts the characters of a replaced occurrence still to pass over.
\<close>

fun replace_from :: "nat \<Rightarrow> string \<Rightarrow> string \<Rightarrow> string \<Rightarrow> string" where
  "replace_from skip old new [] = []"
| "replace_from skip old new (c # cs) =
     (if 0 < skip then replace_from (skip - 1) old new cs
      else if startswith (c # cs) old then new @ replace_from (length old - 1) old new cs
      else c # replace_from 0 old new cs)"

definition replace :: "string \<Rightarrow> string \<Rightarrow> string \<Rightarrow> string" where
  "replace s old new =
     (if old = [] then new @ concat (map (\<lambda>c. c # new) s) else replace_from 0 old new s)"

text \<open>The loop that drops a blank line following a blank line.\<close>

fun collapse_blank :: "bool \<Rightarrow> string list \<Rightarrow> string list" where
  "collapse_blank prev_blank [] = []"
| "collapse_blank prev_blank (line # lines) =
     (let is_blank = (strip line = [])
      in if is_blank \<and> prev_blank then collapse_blank prev_blank lines
         else line # collapse_blank is_blank lines)"

text \<open>Python's \<open>\w\<close> on the code points below 256: \<open>str.isalnum()\<close> or the underscore.\<close>

definition is_word :: "char \<Rightarrow> bool" where
  "is_word c =
     (let n = (of_char c :: nat)
      in (48 \<le> n \<and> n \<le> 57) \<or> (65 \<le> n \<and> n \<le> 90) \<or> n = 95 \<or> (97 \<le> n \<and> n \<le> 122)
         \<or> n \<in> {170, 178, 179, 181, 185, 186, 188, 189, 190}
         \<or> (192 \<le> n \<and> n \<le> 214) \<or> (216 \<le> n \<and> n \<le> 246) \<or> (248 \<le> n \<and> n \<le> 255))"

text \<open>
  \<open>re.search(r'class\s+(\w+)', code)\<close>, giving group 1 of the leftmost match: the word
  \<open>class\<close>, all the whitespace after it (at least one character), then the longest run
  of word characters (at least one).
\<close>

fun re_search_class :: "string \<Rightarrow> string option" where
  "re_search_class [] = None"
| "re_search_class (c # cs) =
     (let rest = drop 5 (c # cs);
          name = takeWhile is_word (dropWhile isspace rest)
      in if startswith (c # cs) ''class'' \<and> takeWhile isspace rest \<noteq> [] \<and> name \<noteq> []
         then Some name
         else re_search_class cs)"

text \<open>The first part of \<open>_clean_code\<close>: fences removed, blank lines collapsed.\<close>

definition tidy :: "string \<Rightarrow> string" where
  \<open>tidy code =
     (let code = replace (replace code (FENCE @ ''python'') []) FENCE [];
          code = strip code;
          lines = split_nl code;
          cleaned_lines = collapse_blank False lines
      in strip (join_nl cleaned_lines))\<close>

definition has_def :: "string \<Rightarrow> bool" where
  "has_def code = (contains code ''def '' \<or> contains code ''class '')"

definition definition_prefixes :: "string list" where
  "definition_prefixes = [''def '', ''class '', ''import '', ''from '', ''#'']"

definition has_direct_calls :: "string \<Rightarrow> bool" where
  "has_direct_calls code =
     list_ex (\<lambda>line. strip line \<noteq> [] \<and> \<not> list_ex (startswith (strip line)) definition_prefixes)
       (split_nl code)"

definition class_invocation :: "string \<Rightarrow> string" where
  \<open>class_invocation class_name =
     [newline, newline] @ ''# Execute'' @ [newline]
     @ ''instance = '' @ class_name @ ''(env)'' @ [newline]
     @ ''if hasattr(instance, 'run'):'' @ [newline]
     @ ''    instance.run()'' @ [newline]
     @ ''elif hasattr(instance, '__call__'):'' @ [newline]
     @ ''    instance()''\<close>

definition main_invocation :: string where
  "main_invocation = [newline, newline] @ ''# Execute'' @ [newline] @ ''main(env)''"

definition automation_invocation :: string where
  "automation_invocation = [newline, newline] @ ''# Execute'' @ [newline] @ ''automation()''"

text \<open>The second part of \<open>_clean_code\<close>: the synthetic invocation.\<close>

definition add_invocation :: "string \<Rightarrow> string" where
  "add_invocation code =
     (if has_def code \<and> \<not> has_direct_calls code then
        (if contains code ''class '' then
           (case re_search_class code of
              Some class_name \<Rightarrow> code @ class_invocation class_name
            | None \<Rightarrow> code)
         else if contains code ''def main'' \<or> contains code ''def automation'' then
           (if contains code ''def main'' then code @ main_invocation
            else if contains code ''def automation'' then code @ automation_invocation
            else code)
         else code)
      else code)"

definition clean_code :: "string \<Rightarrow> string" where
  "clean_code code = add_invocation (tidy code)"

text \<open>
  \<open>CodeGenerator.generate\<close>. The result is the snippet, or the exception the provider
  raised (logged and raised again by the \<open>except\<close> clause).
\<close>

definition generate ::
  "'w collaborators \<Rightarrow> code_generator \<Rightarrow> string \<Rightarrow> string option \<Rightarrow> string option \<Rightarrow> 'w world
     \<Rightarrow> (fault + string) \<times> code_generator \<times> 'w world" where
  "generate C g instruction context retry_on_error W =
     (let key = cache_key instruction context retry_on_error
      in case (if cache_enabled g then code_cache g key else None) of
           Some cached \<Rightarrow> (Inr cached, g, W)
         | None \<Rightarrow>
             (let prompt = build_prompt instruction context retry_on_error;
                  r = call_provider C prompt W
              in case fst r of
                   Inl e \<Rightarrow> (Inl e, g, snd r)
                 | Inr raw \<Rightarrow>
                     (let code = clean_code raw;
                          g' = (if cache_enabled g
                                then g\<lparr>code_cache := (code_cache g)(key \<mapsto> code)\<rparr>
                                else g)
                      in (Inr code, g', snd r))))"

definition clear_cache :: "code_generator \<Rightarrow> code_generator" where
  "clear_cache g = g\<lparr>code_cache := Map.empty\<rparr>"

section \<open>Action engine (bauto/engine/action_engine.py)\<close>

record action_engine =
  screenshot_on_error :: bool
  screenshot_dir :: string
  execution_count :: nat

definition action_engine_init :: "bool \<Rightarrow> string \<Rightarrow> action_engine" where
  "action_engine_init shot dir =
     \<lparr>screenshot_on_error = shot, screenshot_dir = dir, execution_count = 0\<rparr>"

text \<open>
  \<open>_prepare_scope\<close>: the four fixed bindings, then the caller's bindings
  (\<open>scope.update(context)\<close>, which may replace a fixed one).
\<close>

definition prepare_scope :: "(string \<rightharpoonup> obj) option \<Rightarrow> (string \<rightharpoonup> obj)" where
  "prepare_scope context =
     (let scope = [''env'' \<mapsto> EnvHandle, ''driver'' \<mapsto> DriverHandle,
                   ''Keys'' \<mapsto> KeysNamespace, ''__builtins__'' \<mapsto> Builtins]
      in case context of None \<Rightarrow> scope | Some extra \<Rightarrow> scope ++ extra)"

text \<open>
  \<open>_format_error\<close>: kind and message, then the last five of the traceback lines that
  mention \<open><string>\<close> or do not mention \<open>File\<close>.
\<close>

definition relevant_line :: "string \<Rightarrow> bool" where
  "relevant_line line = (contains line ''<string>'' \<or> \<not> contains line ''File'')"

definition format_error :: "fault \<Rightarrow> string" where
  "format_error exception =
     (let error_type = kind exception;
          error_msg = message exception;
          lines = split_nl (trace exception);
          relevant_lines = filter relevant_line lines;
          formatted = error_type @ '': '' @ error_msg
      in if relevant_lines \<noteq> []
         then formatted @ [newline] @ join_nl (drop (length relevant_lines - 5) relevant_lines)
         else formatted)"

text \<open>The decimal text of a counter, for the screenshot's file name.\<close>

fun digit_char :: "nat \<Rightarrow> char" where
  "digit_char n = char_of (48 + n)"

function str_nat :: "nat \<Rightarrow> string" where
  "str_nat n = (if n < 10 then [digit_char n] else str_nat (n div 10) @ [digit_char (n mod 10)])"
  by pat_completeness auto
termination
  by (relation "measure (\<lambda>n. n)") auto

declare str_nat.simps [simp del]

text \<open>
  \<open>_save_error_screenshot\<close>: an \<open>Exception\<close> raised while capturing is logged and
  dropped; the result is an exception that is not an \<open>Exception\<close>, if one was raised.
\<close>

definition save_error_screenshot ::
  "'w collaborators \<Rightarrow> action_engine \<Rightarrow> 'w world \<Rightarrow> fault option \<times> 'w world" where
  "save_error_screenshot C e W =
     (let filename = screenshot_dir e @ ''/error_'' @ str_nat (execution_count e) @ ''.png'';
          r = call_screenshot C filename W
      in case fst r of
           None \<Rightarrow> (None, snd r)
         | Some f \<Rightarrow> if is_exception f then (None, snd r) else (Some f, snd r))"

text \<open>
  \<open>ActionEngine.execute\<close>. \<open>Inr (success, error_message)\<close> is the returned pair;
  \<open>Inl f\<close> is an exception that leaves \<open>execute\<close>: the \<open>except Exception\<close> clause
  catches only instances of \<open>Exception\<close>.
\<close>

definition execute ::
  "'w collaborators \<Rightarrow> action_engine \<Rightarrow> string \<Rightarrow> (string \<rightharpoonup> obj) option \<Rightarrow> 'w world
     \<Rightarrow> (fault + bool \<times> string option) \<times> action_engine \<times> 'w world" where
  "execute C e code context W =
     (let e1 = e\<lparr>execution_count := execution_count e + 1\<rparr>;
          scope = prepare_scope context;
          r = call_exec C code scope W
      in case fst r of
           None \<Rightarrow> (Inr (True, None), e1, snd r)
         | Some f \<Rightarrow>
             if is_exception f then
               (let error_msg = format_error f
                in if screenshot_on_error e1 then
                     (let s = save_error_screenshot C e1 (snd r)
                      in case fst s of
                           None \<Rightarrow> (Inr (False, Some error_msg), e1, snd s)
                         | Some f' \<Rightarrow> (Inl f', e1, snd s))
                   else (Inr (False, Some error_msg), e1, snd r))
             else (Inl f, e1, snd r))"

section \<open>Orchestrator (bauto/core/automator.py)\<close>

text \<open>
  The fields of \<open>config.automation\<close> the orchestrator reads. The two delays are
  logged as \<open>Sleep\<close> events; their lengths are not modelled.
\<close>

record config =
  retry_attempts :: int
  cache_prompts :: bool
  automation_screenshot_on_error :: bool
  error_screenshot_dir :: string

text \<open>
  \<open>BrowserAutomator\<close>. \<open>driver\<close>, \<open>env\<close> and \<open>engine\<close> are set together by
  \<open>_initialize_browser\<close> and unset together by \<open>_cleanup\<close>: \<open>engine_obj\<close> is
  \<open>None\<close> when they are unset.
\<close>

record automator =
  automator_config :: config
  parser_obj :: parser
  generator_obj :: code_generator
  engine_obj :: "action_engine option"

definition automator_init :: "config \<Rightarrow> automator" where
  "automator_init cfg =
     \<lparr>automator_config = cfg, parser_obj = parser_init,
      generator_obj = code_generator_init (cache_prompts cfg), engine_obj = None\<rparr>"

text \<open>The exception of \<open>self.engine.execute\<close> when \<open>self.engine\<close> is \<open>None\<close>.\<close>

definition no_engine_fault :: fault where
  "no_engine_fault = Fault ''AttributeError''
     ([CHR 0x27] @ ''NoneType'' @ [CHR 0x27] @ '' object has no attribute ''
        @ [CHR 0x27] @ ''execute'' @ [CHR 0x27]) True []"

text \<open>
  The \<open>for attempt in range(retry_attempts)\<close> loop of \<open>_execute_action\<close>, with
  \<open>n\<close> iterations left and the error of the previous attempt.
\<close>

fun attempt_loop ::
  "'w collaborators \<Rightarrow> string \<Rightarrow> nat \<Rightarrow> string option \<Rightarrow> automator \<Rightarrow> 'w world
     \<Rightarrow> (fault + bool) \<times> automator \<times> 'w world" where
  "attempt_loop C action 0 last_error A W = (Inr False, A, W)"
| "attempt_loop C action (Suc n) last_error A W =
     (let g = generate C (generator_obj A) action None last_error W;
          A1 = A\<lparr>generator_obj := fst (snd g)\<rparr>;
          W1 = snd (snd g)
      in case fst g of
           Inl f \<Rightarrow> if is_exception f then (Inr False, A1, W1) else (Inl f, A1, W1)
         | Inr code \<Rightarrow>
             (case engine_obj A1 of
                None \<Rightarrow> (Inl no_engine_fault, A1, W1)
              | Some e \<Rightarrow>
                  (let x = execute C e code None W1;
                       A2 = A1\<lparr>engine_obj := Some (fst (snd x))\<rparr>;
                       W2 = snd (snd x)
                   in case fst x of
                        Inl f \<Rightarrow> (Inl f, A2, W2)
                      | Inr res \<Rightarrow>
                          if fst res then (Inr True, A2, sleep W2)
                          else if retry_attempts (automator_config A2) \<le> 1 then (Inr False, A2, W2)
                          else attempt_loop C action n (snd res) A2 W2)))"

definition execute_action ::
  "'w collaborators \<Rightarrow> string \<Rightarrow> automator \<Rightarrow> 'w world \<Rightarrow> (fault + bool) \<times> automator \<times> 'w world" where
  "execute_action C action A W =
     attempt_loop C action (nat (retry_attempts (automator_config A))) None A W"

text \<open>
  The \<open>for i, action in enumerate(action_queue, 1)\<close> loop of \<open>run\<close>: \<open>n_actions\<close> is
  \<open>len(action_queue)\<close>, \<open>i\<close> the index of the first remaining action.
\<close>

fun run_actions ::
  "'w collaborators \<Rightarrow> nat \<Rightarrow> nat \<Rightarrow> string list \<Rightarrow> bool \<Rightarrow> automator \<Rightarrow> 'w world
     \<Rightarrow> (fault + bool) \<times> automator \<times> 'w world" where
  "run_actions C n_actions i [] all_success A W = (Inr all_success, A, W)"
| "run_actions C n_actions i (action # rest) all_success A W =
     (let x = execute_action C action A W;
          A1 = fst (snd x);
          W1 = snd (snd x)
      in case fst x of
           Inl f \<Rightarrow> (Inl f, A1, W1)
         | Inr success \<Rightarrow>
             if \<not> success \<and> retry_attempts (automator_config A1) \<le> 1 then (Inr False, A1, W1)
             else run_actions C n_actions (i + 1) rest (all_success \<and> success) A1
                    (if i < n_actions then sleep W1 else W1))"

text \<open>\<open>_initialize_browser\<close>: creates the browser and the engine when they are unset.\<close>

definition initialize_browser ::
  "'w collaborators \<Rightarrow> automator \<Rightarrow> 'w world \<Rightarrow> fault option \<times> automator \<times> 'w world" where
  "initialize_browser C A W =
     (case engine_obj A of
        Some e \<Rightarrow> (None, A, W)
      | None \<Rightarrow>
          (let r = call_create_browser C W
           in case fst r of
                Some f \<Rightarrow> (Some f, A, snd r)
              | None \<Rightarrow>
                  (None,
                   A\<lparr>engine_obj := Some (action_engine_init
                        (automation_screenshot_on_error (automator_config A))
                        (error_screenshot_dir (automator_config A)))\<rparr>,
                   snd r)))"

text \<open>\<open>_cleanup\<close>: \<open>driver.quit()\<close> under a bare \<open>except\<close>, then the handles are unset.\<close>

definition cleanup :: "'w collaborators \<Rightarrow> automator \<Rightarrow> 'w world \<Rightarrow> automator \<times> 'w world" where
  "cleanup C A W =
     (case engine_obj A of
        None \<Rightarrow> (A, W)
      | Some e \<Rightarrow> (A\<lparr>engine_obj := None\<rparr>, snd (call_driver_quit C W)))"

text \<open>The body of the \<open>try\<close> in \<open>run\<close>.\<close>

definition run_body ::
  "'w collaborators \<Rightarrow> automator \<Rightarrow> instructions \<Rightarrow> 'w world
     \<Rightarrow> (fault + bool) \<times> automator \<times> 'w world" where
  "run_body C A instrs W =
     (let b = initialize_browser C A W
      in case fst b of
           Some f \<Rightarrow> (Inl f, snd b)
         | None \<Rightarrow>
             (let A1 = fst (snd b);
                  A2 = A1\<lparr>parser_obj := parse (parser_obj A1) instrs\<rparr>;
                  queue = action_queue (parser_obj A2)
              in run_actions C (length queue) 1 queue True A2 (snd (snd b))))"

text \<open>
  \<open>BrowserAutomator.run\<close>: \<open>except Exception\<close> turns an \<open>Exception\<close> into the
  result \<open>False\<close>; \<open>finally\<close> cleans up when asked to and the driver is set.
\<close>

definition run ::
  "'w collaborators \<Rightarrow> automator \<Rightarrow> instructions \<Rightarrow> bool \<Rightarrow> 'w world
     \<Rightarrow> (fault + bool) \<times> automator \<times> 'w world" where
  "run C A instrs close_browser W =
     (let x = run_body C A instrs W;
          result = (case fst x of
                      Inl f \<Rightarrow> if is_exception f then Inr False else Inl f
                    | Inr all_success \<Rightarrow> Inr all_success);
          A1 = fst (snd x);
          W1 = snd (snd x);
          fin = (if close_browser then cleanup C A1 W1 else (A1, W1))
      in (result, fst fin, snd fin))"

section \<open>Test doubles and drivers\<close>

text \<open>
  Stand-ins for the collaborators, as the mocks of \<open>tests/conftest.py\<close> are: a provider
  and an interpreter given by what they answer to a prompt and to a snippet, without state;
  the screenshot, the browser creation and \<open>quit\<close> succeed.
\<close>

definition world_init :: "unit world" where
  "world_init = \<lparr>ext = (), log = []\<rparr>"

definition mock_collaborators ::
  "(string \<Rightarrow> fault + string) \<Rightarrow> (string \<Rightarrow> fault option) \<Rightarrow> unit collaborators" where
  "mock_collaborators provider interpreter =
     \<lparr>ai_generate_with_retry = (\<lambda>prompt w. (provider prompt, w)),
      py_exec = (\<lambda>code scope w. (interpreter code, w)),
      env_screenshot = (\<lambda>filename w. (None, w)),
      create_browser = (\<lambda>w. (None, w)),
      driver_quit = (\<lambda>w. (None, w))\<rparr>"

text \<open>
  Two calls of \<open>generate\<close> in a row on the same generator: the two results and the
  world after the second call.
\<close>

definition generate_both ::
  "'w collaborators \<Rightarrow> code_generator \<Rightarrow> string \<Rightarrow> string option \<Rightarrow> string option
     \<Rightarrow> string \<Rightarrow> string option \<Rightarrow> string option \<Rightarrow> 'w world
     \<Rightarrow> (fault + string) \<times> (fault + string) \<times> 'w world" where
  "generate_both C g i1 c1 e1 i2 c2 e2 W =
     (let x1 = generate C g i1 c1 e1 W;
          x2 = generate C (fst (snd x1)) i2 c2 e2 (snd (snd x1))
      in (fst x1, fst x2, snd (snd x2)))"

text \<open>
  Two calls of \<open>run\<close> in a row on the same automator, both with
  \<open>close_browser=True\<close>: the two results, the automator and the world after the
  second call.
\<close>

definition run_both ::
  "'w collaborators \<Rightarrow> automator \<Rightarrow> instructions \<Rightarrow> instructions \<Rightarrow> 'w world
     \<Rightarrow> (fault + bool) \<times> (fault + bool) \<times> automator \<times> 'w world" where
  "run_both C A instrs1 instrs2 W =
     (let x1 = run C A instrs1 True W;
          x2 = run C (fst (snd x1)) instrs2 True (snd (snd x1))
      in (fst x1, fst x2, fst (snd x2), snd (snd x2)))"

text \<open>The defaults of \<open>AutomationConfig\<close> (bauto/config/settings.py).\<close>

definition default_config :: config where
  "default_config = \<lparr>retry_attempts = 3, cache_prompts = True,
     automation_screenshot_on_error = True, error_screenshot_dir = ''error_screenshots''\<rparr>"


section \<open>Predicates used to state the properties\<close>

text \<open>
  A queued instruction as the parser produces it: non-empty, equal to its own
  \<open>strip()\<close>, and not starting with the comment marker.
\<close>

definition trimmed_instruction :: "string \<Rightarrow> bool" where
  "trimmed_instruction a = (a \<noteq> [] \<and> strip a = a \<and> \<not> startswith a COMMENT)"

definition clean_parser :: "parser \<Rightarrow> bool" where
  "clean_parser p =
     ((\<forall>a \<in> set (action_queue p). trimmed_instruction a) \<and>
      (\<forall>name func_body. function_defs p name = Some func_body \<longrightarrow>
         (\<forall>l \<in> set func_body. trimmed_instruction l)))"

definition newline_free :: "string \<Rightarrow> bool" where
  "newline_free a = (newline \<notin> set a)"

text \<open>
  \<open>acceptable P lines\<close>: every line that either pass keeps (stripped, non-empty, not a
  comment) satisfies \<open>P\<close>. \<open>bodies_ok P fs\<close>: every recorded macro body line satisfies \<open>P\<close>.
\<close>

definition acceptable :: "(string \<Rightarrow> bool) \<Rightarrow> string list \<Rightarrow> bool" where
  "acceptable P lines =
     (\<forall>x \<in> set lines. strip x \<noteq> [] \<and> \<not> startswith (strip x) COMMENT \<longrightarrow> P (strip x))"

definition bodies_ok :: "(string \<Rightarrow> bool) \<Rightarrow> (string \<rightharpoonup> string list) \<Rightarrow> bool" where
  "bodies_ok P fs = (\<forall>name func_body. fs name = Some func_body \<longrightarrow> (\<forall>l \<in> set func_body. P l))"

text \<open>
  \<open>inside_definition inside lines\<close>: whether the end of \<open>lines\<close> lies between a
  line starting with the start marker and the next line starting with the end marker,
  when the lines begin inside (\<open>inside = True\<close>) or outside a macro definition.
\<close>

fun inside_definition :: "bool \<Rightarrow> string list \<Rightarrow> bool" where
  "inside_definition inside [] = inside"
| "inside_definition inside (l # ls) =
     inside_definition (if inside then \<not> startswith (strip l) FUNCTION_END
                        else startswith (strip l) FUNCTION_START) ls"

text \<open>
  An ordinary instruction: a stripped line that is not empty, not a comment and starts
  with none of the three markers. \<open>plain_instructions lines\<close> are the ordinary
  instructions of an input, in its order.
\<close>

definition plain_instruction :: "string \<Rightarrow> bool" where
  "plain_instruction line =
     (line \<noteq> [] \<and> \<not> startswith line COMMENT \<and> \<not> startswith line FUNCTION_START
      \<and> \<not> startswith line FUNCTION_END \<and> \<not> startswith line CALL_FUNCTION)"

definition plain_instructions :: "string list \<Rightarrow> string list" where
  "plain_instructions lines = filter plain_instruction (map strip lines)"

text \<open>
  \<open>_extract_functions\<close> read as one pass over the lines: the state is the macro table
  and the macro being collected (its name and the body so far), if any. Lemma
  \<open>extract_functions_from_scan\<close> shows that the two nested loops compute the same table.
\<close>

definition scan_step ::
  "(string \<rightharpoonup> string list) \<times> (string \<times> string list) option \<Rightarrow> string
     \<Rightarrow> (string \<rightharpoonup> string list) \<times> (string \<times> string list) option" where
  "scan_step st raw =
     (let line = strip raw
      in case snd st of
           None \<Rightarrow>
             if line = [] \<or> startswith line COMMENT then st
             else if startswith line FUNCTION_START then (fst st, Some (func_name_of line, []))
             else st
         | Some cur \<Rightarrow>
             if startswith line FUNCTION_END then ((fst st)(fst cur \<mapsto> snd cur), None)
             else (fst st,
                   Some (fst cur,
                         if line \<noteq> [] \<and> \<not> startswith line COMMENT then snd cur @ [line]
                         else snd cur)))"

definition scan_finish ::
  "(string \<rightharpoonup> string list) \<times> (string \<times> string list) option \<Rightarrow> (string \<rightharpoonup> string list)" where
  "scan_finish st = (case snd st of None \<Rightarrow> fst st | Some cur \<Rightarrow> (fst st)(fst cur \<mapsto> snd cur))"


section \<open>Facts about the string operations\<close>

lemma dropWhile_unchanged: "xs = [] \<or> \<not> P (hd xs) \<Longrightarrow> dropWhile P xs = xs"
  by (cases xs) auto

lemma strip_decomp: "\<exists>w. dropWhile isspace s = strip s @ w"
proof -
  let ?t = "dropWhile isspace s"
  have "rev (strip s @ rev (takeWhile isspace (rev ?t))) = rev ?t"
    by (simp add: strip_def)
  then have "?t = strip s @ rev (takeWhile isspace (rev ?t))"
    by (simp only: rev_is_rev_conv)
  then show ?thesis ..
qed

lemma strip_hd: "strip s \<noteq> [] \<Longrightarrow> \<not> isspace (hd (strip s))"
proof -
  assume ne: "strip s \<noteq> []"
  obtain w where w: "dropWhile isspace s = strip s @ w" using strip_decomp by blast
  with ne have "dropWhile isspace s \<noteq> []" by auto
  then have "\<not> isspace (hd (dropWhile isspace s))" by (rule hd_dropWhile)
  with w ne show ?thesis by simp
qed

lemma strip_last: "strip s \<noteq> [] \<Longrightarrow> \<not> isspace (last (strip s))"
proof -
  assume ne: "strip s \<noteq> []"
  let ?d = "dropWhile isspace (rev (dropWhile isspace s))"
  from ne have "?d \<noteq> []" by (simp add: strip_def)
  then have "\<not> isspace (hd ?d)" by (rule hd_dropWhile)
  moreover have "last (strip s) = hd ?d" using \<open>?d \<noteq> []\<close>
    by (simp add: strip_def last_rev)
  ultimately show ?thesis by simp
qed

lemma strip_fixed: "t = [] \<or> (\<not> isspace (hd t) \<and> \<not> isspace (last t)) \<Longrightarrow> strip t = t"
proof -
  assume a: "t = [] \<or> (\<not> isspace (hd t) \<and> \<not> isspace (last t))"
  then have 1: "dropWhile isspace t = t" by (intro dropWhile_unchanged) auto
  from a have "rev t = [] \<or> \<not> isspace (hd (rev t))" by (auto simp: hd_rev)
  then have 2: "dropWhile isspace (rev t) = rev t" by (rule dropWhile_unchanged)
  show ?thesis by (simp add: strip_def 1 2)
qed

lemma strip_idem: "strip (strip s) = strip s"
  using strip_hd [of s] strip_last [of s] by (intro strip_fixed) auto

lemma split_ws_from_nonempty: "cur \<noteq> [] \<or> (\<exists>c \<in> set s. \<not> isspace c) \<Longrightarrow> split_ws_from cur s \<noteq> []"
  by (induction s arbitrary: cur) auto

lemma split_ws_nonempty: "strip line \<noteq> [] \<Longrightarrow> split_ws (strip line) \<noteq> []"
proof -
  assume ne: "strip line \<noteq> []"
  then have "\<not> isspace (hd (strip line))" by (rule strip_hd)
  with ne have "\<exists>c \<in> set (strip line). \<not> isspace c" by (metis hd_in_set)
  then show ?thesis by (simp add: split_ws_def split_ws_from_nonempty)
qed

lemma collect_body_all:
  assumes "acceptable P lines" and "\<forall>l \<in> set func_body. P l"
  shows "\<forall>l \<in> set (snd (collect_body lines i func_body)). P l"
  using assms
proof (induction lines i func_body rule: collect_body.induct)
  case (1 lines i func_body)
  show ?case
  proof (cases "i < length lines \<and> \<not> startswith (strip (lines ! i)) FUNCTION_END")
    case False
    with "1.prems" show ?thesis by (subst collect_body.simps) (auto simp: Let_def)
  next
    case True
    then have inb: "i < length lines"
      and noend: "\<not> startswith (strip (lines ! i)) FUNCTION_END" by auto
    let ?b = "if strip (lines ! i) \<noteq> [] \<and> \<not> startswith (strip (lines ! i)) COMMENT
               then func_body @ [strip (lines ! i)] else func_body"
    from inb have "lines ! i \<in> set lines" by simp
    with "1.prems" have "\<forall>l \<in> set ?b. P l" by (auto simp: acceptable_def)
    with "1.IH" [OF inb refl noend] "1.prems"(1)
    have "\<forall>l \<in> set (snd (collect_body lines (i + 1) ?b)). P l" by blast
    with inb noend show ?thesis
      by (subst collect_body.simps) (simp add: Let_def)
  qed
qed

lemma extract_functions_from_all:
  assumes "acceptable P lines" and "bodies_ok P fs"
  shows "bodies_ok P (extract_functions_from lines i fs)"
  using assms
proof (induction lines i fs rule: extract_functions_from.induct)
  case (1 lines i fs)
  let ?line = "strip (lines ! i)"
  show ?case
  proof (cases "i < length lines")
    case False
    with "1.prems" show ?thesis by simp
  next
    case inb: True
    show ?thesis
    proof (cases "?line = [] \<or> startswith ?line COMMENT")
      case True
      with "1.IH"(1) [OF inb refl True] "1.prems" inb show ?thesis
        by (subst extract_functions_from.simps) (simp add: Let_def)
    next
      case nocomment: False
      show ?thesis
      proof (cases "startswith ?line FUNCTION_START")
        case True
        let ?r = "collect_body lines (i + 1) []"
        have "\<forall>l \<in> set (snd ?r). P l"
          using "1.prems"(1) by (intro collect_body_all) auto
        with "1.prems"(2) have "bodies_ok P (fs(func_name_of ?line \<mapsto> snd ?r))"
          by (auto simp: bodies_ok_def)
        with "1.IH"(2) [OF inb refl nocomment True refl refl] "1.prems"(1)
        have "bodies_ok P (extract_functions_from lines (fst ?r + 1) (fs(func_name_of ?line \<mapsto> snd ?r)))"
          by blast
        with inb nocomment True show ?thesis
          by (subst extract_functions_from.simps) (simp add: Let_def)
      next
        case False
        with "1.IH"(3) [OF inb refl nocomment False] "1.prems" inb nocomment show ?thesis
          by (subst extract_functions_from.simps) (simp add: Let_def)
      qed
    qed
  qed
qed

lemma build_step_all:
  assumes "bodies_ok P fs" and "\<forall>a \<in> set queue. P a"
    and "strip raw \<noteq> [] \<and> \<not> startswith (strip raw) COMMENT \<longrightarrow> P (strip raw)"
  shows "\<forall>a \<in> set (build_step fs queue raw). P a"
  using assms by (auto simp: build_step_def Let_def bodies_ok_def split: option.splits)

lemma build_foldl_all:
  assumes "bodies_ok P fs" and "\<forall>a \<in> set queue. P a" and "acceptable P lines"
  shows "\<forall>a \<in> set (foldl (build_step fs) queue lines). P a"
  using assms(2,3)
proof (induction lines arbitrary: queue)
  case Nil
  then show ?case by simp
next
  case (Cons raw lines)
  from Cons.prems have "\<forall>a \<in> set (build_step fs queue raw). P a"
    by (intro build_step_all [OF assms(1)]) (auto simp: acceptable_def)
  moreover from Cons.prems have "acceptable P lines" by (simp add: acceptable_def)
  ultimately show ?case using Cons.IH by simp
qed

lemma parse_all:
  assumes "acceptable P (lines_of instrs)" and "bodies_ok P (function_defs p)"
    and "\<forall>a \<in> set (action_queue p). P a"
  shows "bodies_ok P (function_defs (parse p instrs)) \<and> (\<forall>a \<in> set (action_queue (parse p instrs)). P a)"
proof -
  let ?fs = "extract_functions_from (lines_of instrs) 0 (function_defs p)"
  have fs: "bodies_ok P ?fs" using assms(1,2) by (rule extract_functions_from_all)
  have "\<forall>a \<in> set (foldl (build_step ?fs) (action_queue p) (lines_of instrs)). P a"
    using fs assms(3,1) by (rule build_foldl_all)
  with fs show ?thesis
    by (simp add: parse_def Let_def build_action_queue_def extract_functions_def)
qed

section \<open>Properties of the instruction parser\<close>

lemma acceptable_trimmed: "acceptable trimmed_instruction lines"
  by (simp add: acceptable_def trimmed_instruction_def strip_idem)

lemma acceptable_member: "acceptable (\<lambda>l. l \<in> strip ` set lines) lines"
  by (simp add: acceptable_def)

lemma build_step_queue: "build_step fs queue raw = queue @ build_step fs [] raw"
  by (simp add: build_step_def Let_def split: option.splits)

lemma build_foldl_queue:
  "foldl (build_step fs) queue lines = queue @ foldl (build_step fs) [] lines"
proof (induction lines arbitrary: queue)
  case Nil
  show ?case by simp
next
  case (Cons raw lines)
  have "foldl (build_step fs) queue (raw # lines) = foldl (build_step fs) (build_step fs queue raw) lines"
    by simp
  also have "\<dots> = build_step fs queue raw @ foldl (build_step fs) [] lines"
    by (rule Cons.IH)
  also have "\<dots> = queue @ build_step fs [] raw @ foldl (build_step fs) [] lines"
    by (subst build_step_queue) simp
  also have "build_step fs [] raw @ foldl (build_step fs) [] lines = foldl (build_step fs) (build_step fs [] raw) lines"
    by (rule Cons.IH [symmetric])
  finally show ?case by simp
qed

text \<open>
  Claim C1 (Scenario B). The claim says that parsing \<open>DEFINE_FUNCTION login\<close>, two body
  lines, \<open>END_FUNCTION\<close>, \<open>CALL login\<close> and \<open>Wait 2 seconds\<close> gives a queue of exactly
  three entries. The second pass of the source skips only the two marker lines, not the
  lines between them, so the body lines are queued once where they are defined and once
  more by the call: the queue has five entries.
\<close>

theorem scenario_B_queue:
  "action_queue (parse parser_init (Lines [''DEFINE_FUNCTION login'', ''Type username'',
       ''Type password'', ''END_FUNCTION'', ''CALL login'', ''Wait 2 seconds'']))
   = [''Type username'', ''Type password'', ''Type username'', ''Type password'', ''Wait 2 seconds'']"
  by code_simp

subsection \<open>Macro extraction as a single pass\<close>

lemma collect_body_scan:
  "scan_finish (foldl scan_step (fs, Some (name, func_body)) (drop i lines))
     = scan_finish (foldl scan_step (fs(name \<mapsto> snd (collect_body lines i func_body)), None)
         (drop (fst (collect_body lines i func_body) + 1) lines))"
proof (induction lines i func_body rule: collect_body.induct)
  case (1 lines i func_body)
  show ?case
  proof (cases "i < length lines")
    case False
    then have "collect_body lines i func_body = (i, func_body)"
      by (subst collect_body.simps) simp
    show ?thesis unfolding \<open>collect_body lines i func_body = (i, func_body)\<close>
      using False by (simp add: scan_finish_def)
  next
    case inb: True
    then have d: "drop i lines = lines ! i # drop (i + 1) lines"
      by (simp add: Cons_nth_drop_Suc)
    show ?thesis
    proof (cases "startswith (strip (lines ! i)) FUNCTION_END")
      case True
      with inb have c: "collect_body lines i func_body = (i, func_body)"
        by (subst collect_body.simps) (simp add: Let_def)
      have step: "scan_step (fs, Some (name, func_body)) (lines ! i) = (fs(name \<mapsto> func_body), None)"
        using True by (simp add: scan_step_def Let_def)
      show ?thesis unfolding c by (simp add: d step fun_upd_def)
    next
      case False
      let ?b = "if strip (lines ! i) \<noteq> [] \<and> \<not> startswith (strip (lines ! i)) COMMENT
                then func_body @ [strip (lines ! i)] else func_body"
      from inb False have c: "collect_body lines i func_body = collect_body lines (i + 1) ?b"
        by (subst collect_body.simps) (simp add: Let_def)
      have "scan_step (fs, Some (name, func_body)) (lines ! i) = (fs, Some (name, ?b))"
        using False by (simp add: scan_step_def Let_def)
      then have "scan_finish (foldl scan_step (fs, Some (name, func_body)) (drop i lines))
          = scan_finish (foldl scan_step (fs, Some (name, ?b)) (drop (i + 1) lines))"
        by (simp add: d)
      also have "\<dots> = scan_finish (foldl scan_step (fs(name \<mapsto> snd (collect_body lines (i + 1) ?b)), None)
           (drop (fst (collect_body lines (i + 1) ?b) + 1) lines))"
        by (rule "1.IH" [OF inb refl False])
      finally show ?thesis by (simp only: c)
    qed
  qed
qed

lemma extract_functions_from_scan:
  "extract_functions_from lines i fs = scan_finish (foldl scan_step (fs, None) (drop i lines))"
proof (induction lines i fs rule: extract_functions_from.induct)
  case (1 lines i fs)
  let ?line = "strip (lines ! i)"
  show ?case
  proof (cases "i < length lines")
    case False
    then show ?thesis by (subst extract_functions_from.simps) (simp add: scan_finish_def)
  next
    case inb: True
    then have d: "drop i lines = lines ! i # drop (i + 1) lines"
      by (simp add: Cons_nth_drop_Suc)
    show ?thesis
    proof (cases "?line = [] \<or> startswith ?line COMMENT")
      case True
      then have "scan_step (fs, None) (lines ! i) = (fs, None)"
        by (simp add: scan_step_def Let_def)
      then have "scan_finish (foldl scan_step (fs, None) (drop i lines))
          = scan_finish (foldl scan_step (fs, None) (drop (i + 1) lines))"
        by (simp add: d)
      also have "\<dots> = extract_functions_from lines (i + 1) fs"
        by (rule "1.IH"(1) [OF inb refl True, symmetric])
      also have "\<dots> = extract_functions_from lines i fs"
        using inb True by (subst (2) extract_functions_from.simps) (simp add: Let_def)
      finally show ?thesis by simp
    next
      case nocomment: False
      show ?thesis
      proof (cases "startswith ?line FUNCTION_START")
        case True
        let ?r = "collect_body lines (i + 1) []"
        have "scan_step (fs, None) (lines ! i) = (fs, Some (func_name_of ?line, []))"
          using nocomment True by (simp add: scan_step_def Let_def)
        then have "scan_finish (foldl scan_step (fs, None) (drop i lines))
            = scan_finish (foldl scan_step (fs, Some (func_name_of ?line, [])) (drop (i + 1) lines))"
          by (simp add: d)
        also have "\<dots> = scan_finish (foldl scan_step (fs(func_name_of ?line \<mapsto> snd ?r), None)
             (drop (fst ?r + 1) lines))"
          by (rule collect_body_scan)
        also have "\<dots> = extract_functions_from lines (fst ?r + 1) (fs(func_name_of ?line \<mapsto> snd ?r))"
          by (rule "1.IH"(2) [OF inb refl nocomment True refl refl, symmetric])
        also have "\<dots> = extract_functions_from lines i fs"
          using inb nocomment True by (subst (2) extract_functions_from.simps) (simp add: Let_def)
        finally show ?thesis by simp
      next
        case False
        then have "scan_step (fs, None) (lines ! i) = (fs, None)"
          using nocomment by (simp add: scan_step_def Let_def)
        then have "scan_finish (foldl scan_step (fs, None) (drop i lines))
            = scan_finish (foldl scan_step (fs, None) (drop (i + 1) lines))"
          by (simp add: d)
        also have "\<dots> = extract_functions_from lines (i + 1) fs"
          by (rule "1.IH"(3) [OF inb refl nocomment False, symmetric])
        also have "\<dots> = extract_functions_from lines i fs"
          using inb nocomment False by (subst (2) extract_functions_from.simps) (simp add: Let_def)
        finally show ?thesis by simp
      qed
    qed
  qed
qed

lemma call_not_start: "startswith s CALL_FUNCTION \<Longrightarrow> \<not> startswith s FUNCTION_START"
  by (cases s) (auto simp: startswith_def CALL_FUNCTION_def FUNCTION_START_def)

lemma call_not_end: "startswith s CALL_FUNCTION \<Longrightarrow> \<not> startswith s FUNCTION_END"
  by (cases s) (auto simp: startswith_def CALL_FUNCTION_def FUNCTION_END_def)

lemma call_not_comment: "startswith s CALL_FUNCTION \<Longrightarrow> s \<noteq> [] \<and> \<not> startswith s COMMENT"
  by (cases s) (auto simp: startswith_def CALL_FUNCTION_def COMMENT_def)

lemma start_not_comment: "startswith s FUNCTION_START \<Longrightarrow> s \<noteq> [] \<and> \<not> startswith s COMMENT"
  by (cases s) (auto simp: startswith_def FUNCTION_START_def COMMENT_def)

lemma scan_outside:
  "(snd (foldl scan_step (fs, cur) xs) = None) = (\<not> inside_definition (cur \<noteq> None) xs)"
proof (induction xs arbitrary: fs cur)
  case Nil
  show ?case by (cases cur) auto
next
  case (Cons l ls)
  obtain fs' cur' where s: "scan_step (fs, cur) l = (fs', cur')"
    by (cases "scan_step (fs, cur) l")
  have "(cur' \<noteq> None) = (if cur \<noteq> None then \<not> startswith (strip l) FUNCTION_END
                            else startswith (strip l) FUNCTION_START)"
    using s start_not_comment [of "strip l"]
    by (auto simp: scan_step_def Let_def split: option.splits if_splits)
  with Cons.IH [of fs' cur'] show ?case by (simp add: s)
qed

lemma scan_step_call:
  "snd st = None \<Longrightarrow> startswith (strip c) CALL_FUNCTION \<Longrightarrow> scan_step st c = st"
  by (simp add: scan_step_def Let_def call_not_start)

lemma scan_undefined:
  assumes "\<forall>l \<in> set ls. startswith (strip l) FUNCTION_START \<longrightarrow> func_name_of (strip l) \<noteq> name"
    and "fst st name = None" and "\<forall>cur. snd st = Some cur \<longrightarrow> fst cur \<noteq> name"
  shows "fst (foldl scan_step st ls) name = None
       \<and> (\<forall>cur. snd (foldl scan_step st ls) = Some cur \<longrightarrow> fst cur \<noteq> name)"
  using assms
proof (induction ls arbitrary: st)
  case Nil
  then show ?case by simp
next
  case (Cons l ls)
  have "fst (scan_step st l) name = None
      \<and> (\<forall>cur. snd (scan_step st l) = Some cur \<longrightarrow> fst cur \<noteq> name)"
    using Cons.prems by (auto simp: scan_step_def Let_def split: option.splits if_splits)
  with Cons.IH [of "scan_step st l"] Cons.prems(1) show ?case by simp
qed

lemma extract_undefined:
  assumes "\<forall>l \<in> set ls. startswith (strip l) FUNCTION_START \<longrightarrow> func_name_of (strip l) \<noteq> name"
    and "fs name = None"
  shows "extract_functions_from ls 0 fs name = None"
proof -
  from scan_undefined [OF assms(1), of "(fs, None)"] assms(2)
  have "fst (foldl scan_step (fs, None) ls) name = None
      \<and> (\<forall>cur. snd (foldl scan_step (fs, None) ls) = Some cur \<longrightarrow> fst cur \<noteq> name)"
    by simp
  then have "scan_finish (foldl scan_step (fs, None) ls) name = None"
    by (auto simp: scan_finish_def split: option.splits)
  then show ?thesis by (simp only: extract_functions_from_scan drop_0)
qed

lemma extract_without_call:
  assumes "\<not> inside_definition False xs" and "startswith (strip c) CALL_FUNCTION"
  shows "extract_functions_from (xs @ c # ys) 0 fs = extract_functions_from (xs @ ys) 0 fs"
proof -
  from assms(1) have "snd (foldl scan_step (fs, None) xs) = None"
    using scan_outside [of fs None xs] by simp
  then have "scan_step (foldl scan_step (fs, None) xs) c = foldl scan_step (fs, None) xs"
    using assms(2) by (rule scan_step_call)
  then have "foldl scan_step (fs, None) (xs @ c # ys) = foldl scan_step (fs, None) (xs @ ys)"
    by simp
  then show ?thesis by (simp only: extract_functions_from_scan drop_0)
qed

lemma build_step_subseq:
  "subseq (filter plain_instruction [strip raw]) (build_step fs [] raw)"
  by (auto simp: build_step_def plain_instruction_def Let_def split: option.splits)

lemma build_foldl_subseq:
  "subseq (plain_instructions lines) (foldl (build_step fs) [] lines)"
proof (induction lines)
  case Nil
  show ?case by (simp add: plain_instructions_def)
next
  case (Cons raw lines)
  have "foldl (build_step fs) [] (raw # lines) = build_step fs [] raw @ foldl (build_step fs) [] lines"
    using build_foldl_queue [of fs "build_step fs [] raw" lines] by simp
  moreover have "plain_instructions (raw # lines) = filter plain_instruction [strip raw] @ plain_instructions lines"
    by (simp add: plain_instructions_def)
  ultimately show ?case
    using list_emb_append_mono [OF build_step_subseq [of raw fs] Cons.IH] by simp
qed

lemma parse_lines:
  "parse p (Lines ls) =
     p\<lparr>function_defs := extract_functions_from ls 0 (function_defs p),
       action_queue := foldl (build_step (extract_functions_from ls 0 (function_defs p)))
                         (action_queue p) ls\<rparr>"
  unfolding parse_def lines_of_def build_action_queue_def extract_functions_def Let_def
  by simp

text \<open>
  Claim C8. The claim says that a call of an undefined macro is skipped wherever it
  stands. A call line between a start marker and its end marker is recorded as a body
  line of that macro, and a call of the macro appends the body as it is: the undefined
  call is then queued as an instruction.
\<close>

theorem undefined_call_in_macro_body_queued:
  "action_queue (parse parser_init (Lines [''DEFINE_FUNCTION f'', ''Step one'', ''CALL missing'',
       ''END_FUNCTION'', ''CALL f'']))
     = [''Step one'', ''Step one'', ''CALL missing'']
   \<and> action_queue (parse parser_init (Lines [''DEFINE_FUNCTION f'', ''Step one'',
       ''END_FUNCTION'', ''CALL f'']))
     = [''Step one'', ''Step one'']"
  by code_simp

text \<open>
  Claim C8, amended. Let \<open>c\<close> be a line starting with the call marker that stands
  outside every macro definition and names a macro that neither the parser's table nor a
  start-marker line of the input defines. Then parsing the input gives the same parser
  (queue and macro table) as parsing the input without \<open>c\<close>, and the entries queued
  before, followed by the ordinary instructions of the surrounding lines in their order,
  form a subsequence of the resulting queue.
\<close>

theorem undefined_call_outside_definition:
  assumes "\<not> inside_definition False xs"
    and "startswith (strip c) CALL_FUNCTION"
    and "function_defs p (func_name_of (strip c)) = None"
    and "\<forall>l \<in> set (xs @ ys). startswith (strip l) FUNCTION_START \<longrightarrow>
           func_name_of (strip l) \<noteq> func_name_of (strip c)"
  shows "parse p (Lines (xs @ c # ys)) = parse p (Lines (xs @ ys))
       \<and> subseq (action_queue p @ plain_instructions (xs @ ys))
                (action_queue (parse p (Lines (xs @ c # ys))))"
proof -
  define T where "T = extract_functions_from (xs @ ys) 0 (function_defs p)"
  have E: "extract_functions_from (xs @ c # ys) 0 (function_defs p) = T"
    unfolding T_def using assms(1,2) by (rule extract_without_call)
  have U: "T (func_name_of (strip c)) = None"
    unfolding T_def using assms(4,3) by (rule extract_undefined)
  have step: "build_step T q c = q" for q
    using assms(2) U call_not_comment [of "strip c"] call_not_start [of "strip c"]
      call_not_end [of "strip c"]
    by (simp add: build_step_def Let_def)
  have F: "foldl (build_step T) (action_queue p) (xs @ c # ys)
             = foldl (build_step T) (action_queue p) (xs @ ys)"
    by (simp add: step)
  have P1: "parse p (Lines (xs @ c # ys))
      = p\<lparr>function_defs := T, action_queue := foldl (build_step T) (action_queue p) (xs @ ys)\<rparr>"
    by (simp only: parse_lines E F)
  have P2: "parse p (Lines (xs @ ys))
      = p\<lparr>function_defs := T, action_queue := foldl (build_step T) (action_queue p) (xs @ ys)\<rparr>"
    by (simp only: parse_lines T_def)
  have Q: "action_queue (parse p (Lines (xs @ c # ys)))
      = action_queue p @ foldl (build_step T) [] (xs @ ys)"
    unfolding P1 using build_foldl_queue [of T "action_queue p" "xs @ ys"] by simp
  have "subseq (action_queue p @ plain_instructions (xs @ ys))
          (action_queue p @ foldl (build_step T) [] (xs @ ys))"
    using build_foldl_subseq [of "xs @ ys" T] by (simp add: list_emb_append_mono)
  with P1 P2 Q show ?thesis by simp
qed

theorem undefined_call_outside_definition_witness:
  "action_queue (parse parser_init (Lines [''DEFINE_FUNCTION login'', ''Type username'',
       ''END_FUNCTION'', ''Open page'', ''CALL logout'', ''CALL login'', ''Click button'']))
     = [''Type username'', ''Open page'', ''Type username'', ''Click button'']
   \<and> action_queue (parse parser_init (Lines [''DEFINE_FUNCTION login'', ''Type username'',
       ''END_FUNCTION'', ''Open page'', ''CALL login'', ''Click button'']))
     = [''Type username'', ''Open page'', ''Type username'', ''Click button'']
   \<and> plain_instructions [''DEFINE_FUNCTION login'', ''Type username'',
       ''END_FUNCTION'', ''Open page'', ''CALL login'', ''Click button'']
     = [''Type username'', ''Open page'', ''Click button'']
   \<and> action_queue (parse parser_init (Text ''Open page\<newline>CALL logout\<newline>Click button''))
     = [''Open page'', ''Click button'']"
proof -
  let ?xs = "[''DEFINE_FUNCTION login'', ''Type username'', ''END_FUNCTION'', ''Open page'']"
  let ?ys = "[''CALL login'', ''Click button'']"
  have h1: "\<not> inside_definition False ?xs"
    by code_simp
  have h2: "startswith (strip ''CALL logout'') CALL_FUNCTION"
    by code_simp
  have h3: "function_defs parser_init (func_name_of (strip ''CALL logout'')) = None"
    by (simp add: parser_init_def)
  have h4: "\<forall>l \<in> set (?xs @ ?ys). startswith (strip l) FUNCTION_START \<longrightarrow>
           func_name_of (strip l) \<noteq> func_name_of (strip ''CALL logout'')"
    by code_simp
  have without: "action_queue (parse parser_init (Lines (?xs @ ?ys)))
      = [''Type username'', ''Open page'', ''Type username'', ''Click button'']"
    by code_simp
  have plain: "plain_instructions (?xs @ ?ys) = [''Type username'', ''Open page'', ''Click button'']"
    by code_simp
  have from_text: "action_queue (parse parser_init (Text ''Open page\<newline>CALL logout\<newline>Click button''))
     = [''Open page'', ''Click button'']"
    by code_simp
  from undefined_call_outside_definition [OF h1 h2 h3 h4]
  have "parse parser_init (Lines (?xs @ ''CALL logout'' # ?ys)) = parse parser_init (Lines (?xs @ ?ys))"
    by blast
  with without plain from_text show ?thesis by simp
qed


text \<open>
  Claim C9. The claim says that no queued instruction ever contains the comment marker.
  The source drops only lines that start with the marker; a marker inside a line is kept.
\<close>

theorem queue_entry_contains_marker:
  "action_queue (parse parser_init (Lines [''Click the #submit button''])) = [''Click the #submit button'']
   \<and> contains ''Click the #submit button'' COMMENT"
  by code_simp

text \<open>
  Claim C9, amended. Every instruction the parser queues and every macro body line it
  records is non-empty, whitespace-trimmed and does not start with the comment marker.
  This holds of a new parser and is kept by every call of \<open>parse\<close>.
\<close>

theorem parse_keeps_clean: "clean_parser p \<Longrightarrow> clean_parser (parse p instrs)"
proof -
  assume "clean_parser p"
  then have "bodies_ok trimmed_instruction (function_defs p)"
    and "\<forall>a \<in> set (action_queue p). trimmed_instruction a"
    by (auto simp: clean_parser_def bodies_ok_def)
  with parse_all [OF acceptable_trimmed] 
  have "bodies_ok trimmed_instruction (function_defs (parse p instrs)) \<and>
        (\<forall>a \<in> set (action_queue (parse p instrs)). trimmed_instruction a)" by blast
  then show ?thesis by (auto simp: clean_parser_def bodies_ok_def)
qed

theorem parse_keeps_clean_witness:
  "clean_parser parser_init \<and>
   clean_parser (parse parser_init
     (Lines [''  # setup'', ''DEFINE_FUNCTION login'', ''  Type username  '', ''END_FUNCTION'',
             ''CALL login'', ''  Wait 2 seconds '']))"
proof -
  have h: "clean_parser parser_init"
    by (simp add: clean_parser_def parser_init_def)
  from h parse_keeps_clean [OF h] show ?thesis by blast
qed

text \<open>
  Claim C10. For newline-free instructions, grouping keeps the content: splitting each
  returned block on line breaks and concatenating gives back the input list. The function
  only reads its argument; the model takes and returns values.
\<close>

lemma split_nl_from_plain: "newline \<notin> set s \<Longrightarrow> split_nl_from cur s = [cur @ s]"
  by (induction s arbitrary: cur) auto

lemma split_nl_from_append:
  "newline \<notin> set s \<Longrightarrow> split_nl_from cur (s @ newline # t) = (cur @ s) # split_nl_from [] t"
  by (induction s arbitrary: cur) auto

lemma split_nl_join_nl:
  "xs \<noteq> [] \<Longrightarrow> \<forall>x \<in> set xs. newline \<notin> set x \<Longrightarrow> split_nl (join_nl xs) = xs"
proof (induction xs rule: join_nl.induct)
  case 1
  then show ?case by simp
next
  case (2 x)
  then show ?case by (simp add: split_nl_def split_nl_from_plain)
next
  case (3 x y ys)
  then have "split_nl (join_nl (y # ys)) = y # ys" by simp
  with 3 show ?case by (simp add: split_nl_def split_nl_from_append)
qed

lemma group_step_flat:
  assumes "\<forall>x \<in> set b. newline \<notin> set x" and "newline \<notin> set a"
  shows "concat (map split_nl (fst (group_step (g, b) a))) @ snd (group_step (g, b) a)
           = (concat (map split_nl g) @ b) @ [a]
         \<and> (\<forall>x \<in> set (snd (group_step (g, b) a)). newline \<notin> set x)"
  using assms by (auto simp: group_step_def Let_def split_nl_join_nl)

lemma group_foldl_flat:
  assumes "\<forall>x \<in> set (snd st). newline \<notin> set x" and "\<forall>a \<in> set actions. newline \<notin> set a"
  shows "concat (map split_nl (fst (foldl group_step st actions))) @ snd (foldl group_step st actions)
           = (concat (map split_nl (fst st)) @ snd st) @ actions
         \<and> (\<forall>x \<in> set (snd (foldl group_step st actions)). newline \<notin> set x)"
  using assms
proof (induction actions arbitrary: st)
  case Nil
  then show ?case by simp
next
  case (Cons a actions)
  obtain g b where st: "st = (g, b)" by (cases st)
  from Cons.prems st have b: "\<forall>x \<in> set b. newline \<notin> set x" and a: "newline \<notin> set a"
    by auto
  note step = group_step_flat [OF b a, of g]
  from Cons.prems have rest: "\<forall>a \<in> set actions. newline \<notin> set a" by simp
  from Cons.IH [OF conjunct2 [OF step] rest] conjunct1 [OF step]
  show ?case by (simp add: st)
qed

theorem group_related_actions_preserves:
  assumes "\<forall>a \<in> set actions. newline_free a"
  shows "concat (map split_nl (group_related_actions actions)) = actions"
proof -
  let ?st = "foldl group_step ([], []) actions"
  from assms have nf: "\<forall>a \<in> set actions. newline \<notin> set a" by (simp add: newline_free_def)
  have "\<forall>x \<in> set (snd ([] :: string list, [] :: string list)). newline \<notin> set x" by simp
  from group_foldl_flat [OF this nf]
  have flat: "concat (map split_nl (fst ?st)) @ snd ?st = actions"
    and blk: "\<forall>x \<in> set (snd ?st). newline \<notin> set x" by simp_all
  show ?thesis
  proof (cases "snd ?st = []")
    case True
    with flat show ?thesis by (simp add: group_related_actions_def Let_def)
  next
    case False
    with blk have "split_nl (join_nl (snd ?st)) = snd ?st" by (simp add: split_nl_join_nl)
    with False flat show ?thesis by (simp add: group_related_actions_def Let_def)
  qed
qed

theorem group_related_actions_preserves_witness:
  "group_related_actions [''Navigate to site'', ''Then click button'', ''And type text'', ''Take screenshot'']
       = [''Navigate to site\<newline>Then click button\<newline>And type text'', ''Take screenshot'']
   \<and> concat (map split_nl (group_related_actions
        [''Navigate to site'', ''Then click button'', ''And type text'', ''Take screenshot'']))
       = [''Navigate to site'', ''Then click button'', ''And type text'', ''Take screenshot'']"
proof -
  have h: "\<forall>a \<in> set [''Navigate to site'', ''Then click button'', ''And type text'', ''Take screenshot'']. newline_free a"
    by code_simp
  have g: "group_related_actions [''Navigate to site'', ''Then click button'', ''And type text'', ''Take screenshot'']
       = [''Navigate to site\<newline>Then click button\<newline>And type text'', ''Take screenshot'']"
    by code_simp
  from g group_related_actions_preserves [OF h] show ?thesis by blast
qed

section \<open>The code generator: cache and provider requests\<close>

lemma provider_calls_call_provider:
  "provider_calls (snd (call_provider C prompt W)) = Suc (provider_calls W)"
  by (simp add: call_provider_def provider_calls_def Let_def)

text \<open>\<open>generate\<close> by cases: a cache hit, a failed request, a snippet.\<close>

lemma generate_cases:
  "generate C g i c e W =
     (case (if cache_enabled g then code_cache g (cache_key i c e) else None) of
        Some cached \<Rightarrow> (Inr cached, g, W)
      | None \<Rightarrow>
          (case fst (call_provider C (build_prompt i c e) W) of
             Inl f \<Rightarrow> (Inl f, g, snd (call_provider C (build_prompt i c e) W))
           | Inr raw \<Rightarrow>
               (Inr (clean_code raw),
                (if cache_enabled g
                 then g\<lparr>code_cache := (code_cache g)(cache_key i c e \<mapsto> clean_code raw)\<rparr>
                 else g),
                snd (call_provider C (build_prompt i c e) W))))"
  by (simp add: generate_def Let_def split: option.splits sum.splits)

lemma generate_disabled_calls:
  "\<not> cache_enabled g \<Longrightarrow>
     provider_calls (snd (snd (generate C g i c e W))) = Suc (provider_calls W)
     \<and> \<not> cache_enabled (fst (snd (generate C g i c e W)))"
  by (simp add: generate_cases provider_calls_call_provider split: sum.splits)

lemma generate_enabled_ok:
  assumes "cache_enabled g" and "fst (generate C g i c e W) = Inr code"
  shows "cache_enabled (fst (snd (generate C g i c e W)))
       \<and> code_cache (fst (snd (generate C g i c e W))) (cache_key i c e) = Some code
       \<and> provider_calls (snd (snd (generate C g i c e W))) \<le> Suc (provider_calls W)"
  using assms
  by (auto simp: generate_cases provider_calls_call_provider split: option.splits sum.splits)

lemma generate_hit:
  "cache_enabled g \<Longrightarrow> code_cache g (cache_key i c e) = Some code \<Longrightarrow>
     generate C g i c e W = (Inr code, g, W)"
  by (simp add: generate_cases)

lemma clean_code_wait: "clean_code ''env.wait(1)'' = ''env.wait(1)''"
  by code_simp

lemma clean_code_refresh: "clean_code ''env.refresh()'' = ''env.refresh()''"
  by code_simp

lemma build_prompt_context_differs:
  "build_prompt ''Click'' (Some ''None'') None \<noteq> build_prompt ''Click'' None None"
  by (simp add: build_prompt_def truthy_def Let_def)

lemmas generate_unfold =
  generate_both_def generate_cases Let_def mock_collaborators_def call_provider_def
  code_generator_init_def world_init_def provider_calls_def

text \<open>
  Claim C3, amended. Two calls of \<open>generate\<close> in a row with the same
  \<open>(instruction, context, retry_on_error)\<close>, counted as requests to
  \<open>ai.generate_with_retry\<close>: with the cache enabled and a first call that returns a
  snippet, the second call returns the same snippet and both calls together make at most
  one request; with the cache disabled they make exactly two.
\<close>

theorem generate_twice_provider_calls:
  "(cache_enabled g \<and> fst (generate_both C g i c e i c e W) = Inr code \<longrightarrow>
      fst (snd (generate_both C g i c e i c e W)) = Inr code
      \<and> provider_calls (snd (snd (generate_both C g i c e i c e W))) \<le> provider_calls W + 1)
   \<and> (\<not> cache_enabled g \<longrightarrow>
      provider_calls (snd (snd (generate_both C g i c e i c e W))) = provider_calls W + 2)"
proof (intro conjI impI)
  assume a: "cache_enabled g \<and> fst (generate_both C g i c e i c e W) = Inr code"
  let ?x1 = "generate C g i c e W"
  from a have en: "cache_enabled g" and ok: "fst ?x1 = Inr code"
    by (simp_all add: generate_both_def Let_def)
  note first = generate_enabled_ok [OF en ok]
  have second: "generate C (fst (snd ?x1)) i c e (snd (snd ?x1)) = (Inr code, fst (snd ?x1), snd (snd ?x1))"
    using first by (intro generate_hit) simp_all
  show "fst (snd (generate_both C g i c e i c e W)) = Inr code"
    by (simp add: generate_both_def Let_def second)
  show "provider_calls (snd (snd (generate_both C g i c e i c e W))) \<le> provider_calls W + 1"
    using first by (simp add: generate_both_def Let_def second)
next
  assume dis: "\<not> cache_enabled g"
  let ?x1 = "generate C g i c e W"
  note first = generate_disabled_calls [OF dis, of C i c e W]
  from first have dis1: "\<not> cache_enabled (fst (snd ?x1))" by simp
  note second = generate_disabled_calls [OF dis1, of C i c e "snd (snd ?x1)"]
  show "provider_calls (snd (snd (generate_both C g i c e i c e W))) = provider_calls W + 2"
    using first second by (simp add: generate_both_def Let_def)
qed

text \<open>
  The theorem at \<open>generate("Click button")\<close> twice, with a provider that answers
  \<open>env.wait(1)\<close>: one request at most with the cache, two without.
\<close>

theorem generate_twice_provider_calls_witness:
  "fst (generate_both (mock_collaborators (\<lambda>prompt. Inr ''env.wait(1)'') (\<lambda>code. None))
          (code_generator_init True) ''Click button'' None None ''Click button'' None None world_init)
     = Inr ''env.wait(1)''
   \<and> provider_calls (snd (snd (generate_both (mock_collaborators (\<lambda>prompt. Inr ''env.wait(1)'') (\<lambda>code. None))
          (code_generator_init True) ''Click button'' None None ''Click button'' None None world_init)))
     \<le> provider_calls world_init + 1
   \<and> provider_calls (snd (snd (generate_both (mock_collaborators (\<lambda>prompt. Inr ''env.wait(1)'') (\<lambda>code. None))
          (code_generator_init False) ''Click button'' None None ''Click button'' None None world_init)))
     = provider_calls world_init + 2"
proof -
  let ?C = "mock_collaborators (\<lambda>prompt. Inr ''env.wait(1)'') (\<lambda>code. None)"
  have en: "cache_enabled (code_generator_init True)"
    and dis: "\<not> cache_enabled (code_generator_init False)"
    by (simp_all add: code_generator_init_def)
  have ok: "fst (generate_both ?C (code_generator_init True) ''Click button'' None None
                   ''Click button'' None None world_init) = Inr ''env.wait(1)''"
    by (simp add: generate_unfold clean_code_wait)
  from en dis ok
    generate_twice_provider_calls [of "code_generator_init True" ?C "''Click button''" None None
      world_init "''env.wait(1)''"]
    generate_twice_provider_calls [of "code_generator_init False" ?C "''Click button''" None None
      world_init "''env.wait(1)''"]
  show ?thesis by blast
qed

text \<open>
  Claim C3. The claim says that with the cache enabled two calls with the same tuple
  make at most one request. When the first request fails nothing is cached, and the second
  call with the same tuple makes a second request although the cache is enabled.
\<close>

theorem failed_generation_queries_again:
  "provider_calls (snd (snd (generate_both
      (mock_collaborators (\<lambda>prompt. Inl (Fault ''RuntimeError'' ''quota exceeded'' True [])) (\<lambda>code. None))
      (code_generator_init True) ''Click button'' None None ''Click button'' None None world_init))) = 2"
  by (simp add: generate_unfold)

text \<open>
  Claim C7. The claim says that distinct tuples are distinct cache keys. The cache key
  is the text \<open>f"{instruction}:{context}:{retry_on_error}"\<close>, which two distinct
  tuples can share: \<open>("Click", None, None)\<close> and \<open>("Click", "None", None)\<close>
  have the same key. With a provider that answers \<open>env.wait(1)\<close> to the prompt of the
  first tuple and \<open>env.refresh()\<close> to every other prompt, \<open>generate\<close> for the second
  tuple after the first returns the first tuple's snippet and makes no request (the log
  holds the one request of the first call); on a generator with an empty cache the
  second tuple yields \<open>env.refresh()\<close>.
\<close>

theorem distinct_tuples_share_cache_key:
  "cache_key ''Click'' None None = cache_key ''Click'' (Some ''None'') None
   \<and> generate_both
       (mock_collaborators
          (\<lambda>prompt. Inr (if prompt = build_prompt ''Click'' None None
                          then ''env.wait(1)'' else ''env.refresh()''))
          (\<lambda>code. None))
       (code_generator_init True) ''Click'' None None ''Click'' (Some ''None'') None world_init
     = (Inr ''env.wait(1)'', Inr ''env.wait(1)'',
        \<lparr>ext = (), log = [ProviderCall (build_prompt ''Click'' None None)]\<rparr>)
   \<and> fst (generate
       (mock_collaborators
          (\<lambda>prompt. Inr (if prompt = build_prompt ''Click'' None None
                          then ''env.wait(1)'' else ''env.refresh()''))
          (\<lambda>code. None))
       (code_generator_init True) ''Click'' (Some ''None'') None world_init)
     = Inr ''env.refresh()''"
proof (intro conjI)
  show key: "cache_key ''Click'' None None = cache_key ''Click'' (Some ''None'') None"
    by (simp add: cache_key_def fmt_opt_def)
  let ?C = "mock_collaborators
          (\<lambda>prompt. Inr (if prompt = build_prompt ''Click'' None None
                          then ''env.wait(1)'' else ''env.refresh()''))
          (\<lambda>code. None)"
  show "generate_both ?C (code_generator_init True) ''Click'' None None ''Click'' (Some ''None'') None
          world_init
        = (Inr ''env.wait(1)'', Inr ''env.wait(1)'',
           \<lparr>ext = (), log = [ProviderCall (build_prompt ''Click'' None None)]\<rparr>)"
    by (simp add: generate_unfold clean_code_wait key [symmetric])
  show "fst (generate ?C (code_generator_init True) ''Click'' (Some ''None'') None world_init)
        = Inr ''env.refresh()''"
    by (simp add: generate_unfold clean_code_refresh build_prompt_context_differs)
qed

section \<open>The code generator: post-processing\<close>

lemma startswith_append: "startswith s (p @ q) \<Longrightarrow> startswith s p"
proof -
  assume "startswith s (p @ q)"
  then have "take (length p + length q) s = p @ q" by (simp add: startswith_def)
  then have "take (length p) (take (length p + length q) s) = take (length p) (p @ q)" by simp
  then show ?thesis by (simp add: startswith_def min_def)
qed

lemma contains_prefix: "contains s (p @ q) \<Longrightarrow> contains s p"
proof (induction s)
  case Nil
  then show ?case by simp
next
  case (Cons c cs)
  then show ?case by (auto dest: startswith_append)
qed





lemma def_main_has_def: "contains code ''def main'' \<Longrightarrow> has_def code"
  using contains_prefix [of code "''def ''" "''main''"] by (simp add: has_def_def)

lemma def_automation_has_def: "contains code ''def automation'' \<Longrightarrow> has_def code"
  using contains_prefix [of code "''def ''" "''automation''"] by (simp add: has_def_def)

text \<open>
  Claim C6. The claim says that a snippet holding only a definition is given an
  invocation. On the snippet of the repository's test \<open>test_function_execution_addition\<close>
  (\<open>def main(env):\<close> with its body on the next line) \<open>_clean_code\<close> appends nothing:
  the indented body line starts with none of \<open>def\<close>, \<open>class\<close>, \<open>import\<close>,
  \<open>from\<close>, \<open>#\<close>, so it passes for a direct call. The result is the stripped
  input, without an \<open># Execute\<close> part.
\<close>

theorem function_definition_not_called:
  \<open>clean_code ''\<newline>        def main(env):\<newline>            env.navigate("https://example.com")\<newline>        ''
     = ''def main(env):\<newline>            env.navigate("https://example.com")''
   \<and> has_def ''def main(env):\<newline>            env.navigate("https://example.com")''
   \<and> has_direct_calls ''def main(env):\<newline>            env.navigate("https://example.com")''
   \<and> \<not> contains ''def main(env):\<newline>            env.navigate("https://example.com")'' ''# Execute''\<close>
  by code_simp

section \<open>The action engine\<close>







section \<open>The orchestrator\<close>








lemma execution_count_execute:
  "execution_count (fst (snd (execute C e code context W))) = Suc (execution_count e)"
  by (simp add: execute_def Let_def split: option.splits)















lemma one_instruction_queue:
  "action_queue (parse parser_init (Lines [''Open page''])) = [''Open page'']"
  by code_simp

lemma carried_queue:
  "action_queue (parse (parse parser_init (Lines [''Open page''])) (Lines [''Click button'']))
     = [''Open page'', ''Click button'']"
  by code_simp

lemma other_instruction_queue:
  "action_queue (parse parser_init (Lines [''Click button''])) = [''Click button'']"
  by code_simp

lemma build_prompt_instruction_differs:
  "build_prompt ''Click button'' None None \<noteq> build_prompt ''Open page'' None None"
  by (simp add: build_prompt_def truthy_def Let_def)

lemmas run_unfold =
  run_both_def run_def run_body_def initialize_browser_def cleanup_def execute_action_def
  automator_init_def default_config_def generate_cases Let_def mock_collaborators_def
  call_provider_def call_exec_def call_create_browser_def call_driver_quit_def
  code_generator_init_def world_init_def execute_def action_engine_init_def sleep_def
  cache_key_def fmt_opt_def eval_nat_numeral

text \<open>
  Claim C5. The claim says that a second call of \<open>run\<close> works on a queue holding only
  its own instructions. The automator keeps one parser, \<open>parse\<close> appends to the
  parser's queue and \<open>run\<close> never calls \<open>clear()\<close>: after
  \<open>run(["Open page"])\<close>, the call \<open>run(["Click button"])\<close> on the same automator
  works on the queue \<open>["Open page", "Click button"]\<close> and executes the snippet of
  \<open>Open page\<close> a second time (from the snippet cache, without a request) before it
  turns to \<open>Click button\<close>. On a new automator the same call executes one snippet.
\<close>

theorem second_run_repeats_first_run:
  "fst (run_both
         (mock_collaborators
            (\<lambda>prompt. Inr (if prompt = build_prompt ''Open page'' None None
                            then ''env.refresh()'' else ''env.wait(1)''))
            (\<lambda>code. None))
         (automator_init default_config) (Lines [''Open page'']) (Lines [''Click button'']) world_init)
     = Inr True
   \<and> fst (snd (run_both
         (mock_collaborators
            (\<lambda>prompt. Inr (if prompt = build_prompt ''Open page'' None None
                            then ''env.refresh()'' else ''env.wait(1)''))
            (\<lambda>code. None))
         (automator_init default_config) (Lines [''Open page'']) (Lines [''Click button'']) world_init))
     = Inr True
   \<and> action_queue (parser_obj (fst (snd (snd (run_both
         (mock_collaborators
            (\<lambda>prompt. Inr (if prompt = build_prompt ''Open page'' None None
                            then ''env.refresh()'' else ''env.wait(1)''))
            (\<lambda>code. None))
         (automator_init default_config) (Lines [''Open page'']) (Lines [''Click button'']) world_init)))))
     = [''Open page'', ''Click button'']
   \<and> log (snd (snd (snd (run_both
         (mock_collaborators
            (\<lambda>prompt. Inr (if prompt = build_prompt ''Open page'' None None
                            then ''env.refresh()'' else ''env.wait(1)''))
            (\<lambda>code. None))
         (automator_init default_config) (Lines [''Open page'']) (Lines [''Click button'']) world_init))))
     = [CreateBrowser, ProviderCall (build_prompt ''Open page'' None None), ExecCall ''env.refresh()'',
        Sleep, DriverQuit,
        CreateBrowser, ExecCall ''env.refresh()'', Sleep, Sleep,
        ProviderCall (build_prompt ''Click button'' None None), ExecCall ''env.wait(1)'', Sleep,
        DriverQuit]
   \<and> log (snd (snd (run
         (mock_collaborators
            (\<lambda>prompt. Inr (if prompt = build_prompt ''Open page'' None None
                            then ''env.refresh()'' else ''env.wait(1)''))
            (\<lambda>code. None))
         (automator_init default_config) (Lines [''Click button'']) True world_init)))
     = [CreateBrowser, ProviderCall (build_prompt ''Click button'' None None), ExecCall ''env.wait(1)'',
        Sleep, DriverQuit]"
  by (simp add: run_unfold one_instruction_queue carried_queue other_instruction_queue
      clean_code_wait clean_code_refresh build_prompt_instruction_differs)

end
